theory Spec2Isabelle
  imports Main "HOL-Library.Sublist"
begin

section \<open>Data model of the learning tracker\<close>

text \<open>
  The tracker (\<^verbatim>\<open>class LearningTracker\<close> in \<^verbatim>\<open>learning_tracker.py\<close>) keeps a list of
  resources, each a Python dictionary, and mirrors that list in a JSON file.

  A dictionary read back from the file need not carry every key, and the code reads some
  keys with \<^verbatim>\<open>resource["k"]\<close> (which raises \<^verbatim>\<open>KeyError\<close> on a missing key) and others with
  \<^verbatim>\<open>resource.get("k", default)\<close>. A resource is therefore a record of optional fields:
  \<open>None\<close> is a missing key. A field that is present holds a value of the type that
  \<^verbatim>\<open>add_resource\<close> stores under it.
\<close>

datatype error = KeyError string

record resource =
  r_id :: "int option"
  r_title :: "string option"
  r_type :: "string option"
  r_url :: "string option"
  r_tags :: "string list option"
  r_concepts :: "string list option"
  r_notes :: "string option"
  r_date_added :: "string option"
  r_status :: "string option"

text \<open>
  The state of a tracker: the list held in memory (\<^verbatim>\<open>self.resources\<close>) and the contents of
  the backing file (\<^verbatim>\<open>self.db_file\<close>), \<open>None\<close> while the file does not exist.
\<close>

record tracker =
  resources :: "resource list"
  db_file :: "resource list option"

text \<open>\<^verbatim>\<open>_load_data\<close>, as called by \<^verbatim>\<open>__init__\<close>: the file's list, or the empty list.\<close>

definition load_data :: "resource list option \<Rightarrow> resource list" where
  "load_data file = (case file of Some rs \<Rightarrow> rs | None \<Rightarrow> [])"

definition init :: "resource list option \<Rightarrow> tracker" where
  "init file = \<lparr>resources = load_data file, db_file = file\<rparr>"

text \<open>\<^verbatim>\<open>_save_data\<close>: the whole list overwrites the file.\<close>

definition save_data :: "tracker \<Rightarrow> tracker" where
  "save_data t = t\<lparr>db_file := Some (resources t)\<rparr>"

text \<open>\<^verbatim>\<open>resource.get("tags", [])\<close> and \<^verbatim>\<open>resource.get("concepts", [])\<close>.\<close>

definition get_tags :: "resource \<Rightarrow> string list" where
  "get_tags r = (case r_tags r of None \<Rightarrow> [] | Some ts \<Rightarrow> ts)"

definition get_concepts :: "resource \<Rightarrow> string list" where
  "get_concepts r = (case r_concepts r of None \<Rightarrow> [] | Some cs \<Rightarrow> cs)"

section \<open>Strings\<close>

text \<open>
  A string is a list of characters with code points below 256. On these, \<^verbatim>\<open>str.lower\<close>
  works character by character: it adds 32 to the code point of \<^verbatim>\<open>A\<close> to \<^verbatim>\<open>Z\<close> (65 to 90)
  and of the capital letters of Latin-1 (192 to 222, the multiplication sign 215 apart),
  and leaves every other character alone.
\<close>

definition lower_char :: "char \<Rightarrow> char" where
  "lower_char c =
    (let n = (of_char c :: nat)
     in if (65 \<le> n \<and> n \<le> 90) \<or> (192 \<le> n \<and> n \<le> 222 \<and> n \<noteq> 215)
        then char_of (n + 32) else c)"

definition lower :: "string \<Rightarrow> string" where
  "lower s = map lower_char s"

text \<open>\<^verbatim>\<open>a in b\<close> on strings: \<open>a\<close> occurs in \<open>b\<close> as a contiguous block.\<close>

definition str_in :: "string \<Rightarrow> string \<Rightarrow> bool" where
  "str_in a b = sublist a b"

section \<open>The resource store\<close>

text \<open>
  \<^verbatim>\<open>add_resource(title, resource_type, url, tags, notes, concepts)\<close>. The arguments
  \<open>tags\<close> and \<open>concepts\<close> default to \<^verbatim>\<open>None\<close>, which the body replaces by the empty list.
  The last argument \<open>now\<close> is the formatted reading of the clock. The result is the new
  dictionary and the updated tracker.
\<close>

definition add_resource ::
  "string \<Rightarrow> string \<Rightarrow> string \<Rightarrow> string list option \<Rightarrow> string \<Rightarrow> string list option \<Rightarrow> string
    \<Rightarrow> tracker \<Rightarrow> resource \<times> tracker" where
  "add_resource title resource_type url tags notes concepts now t =
    (let tags = (case tags of None \<Rightarrow> [] | Some ts \<Rightarrow> ts);
         concepts = (case concepts of None \<Rightarrow> [] | Some cs \<Rightarrow> cs);
         resource = \<lparr>r_id = Some (int (length (resources t)) + 1),
                     r_title = Some title,
                     r_type = Some resource_type,
                     r_url = Some url,
                     r_tags = Some tags,
                     r_concepts = Some concepts,
                     r_notes = Some notes,
                     r_date_added = Some now,
                     r_status = Some ''in_progress''\<rparr>
     in (resource, save_data (t\<lparr>resources := resources t @ [resource]\<rparr>)))"

text \<open>
  \<^verbatim>\<open>update_status(resource_id, status)\<close>. The loop walks the list; \<open>seen\<close> holds the
  resources already passed. At the first resource whose id equals \<open>resource_id\<close> the status
  is overwritten in place, the list is saved, and the message that is printed reads the
  title (a \<^verbatim>\<open>KeyError\<close> when it is missing, raised after the save). The result pairs what
  the call returns or raises with the tracker it leaves behind.
\<close>

fun update_status_loop ::
  "int \<Rightarrow> string \<Rightarrow> resource list \<Rightarrow> resource list \<Rightarrow> tracker \<Rightarrow> (error + bool) \<times> tracker" where
  "update_status_loop resource_id status seen [] t = (Inr False, t)"
| "update_status_loop resource_id status seen (r # rest) t =
    (case r_id r of
       None \<Rightarrow> (Inl (KeyError ''id''), t)
     | Some i \<Rightarrow>
         if i = resource_id then
           (let t' = save_data (t\<lparr>resources := seen @ r\<lparr>r_status := Some status\<rparr> # rest\<rparr>)
            in case r_title r of
                 None \<Rightarrow> (Inl (KeyError ''title''), t')
               | Some title \<Rightarrow> (Inr True, t'))
         else update_status_loop resource_id status (seen @ [r]) rest t)"

definition update_status :: "int \<Rightarrow> string \<Rightarrow> tracker \<Rightarrow> (error + bool) \<times> tracker" where
  "update_status resource_id status t = update_status_loop resource_id status [] (resources t) t"

text \<open>
  \<^verbatim>\<open>list_resources(status, tag)\<close>. A filter is applied when its argument is truthy: neither
  \<^verbatim>\<open>None\<close> nor the empty string. \<^verbatim>\<open>r.get("status") == status\<close> compares the status of the
  record, \<^verbatim>\<open>None\<close> when the key is missing, with the string given.
\<close>

definition list_resources :: "string option \<Rightarrow> string option \<Rightarrow> tracker \<Rightarrow> resource list" where
  "list_resources status tag t =
    (let filtered = resources t;
         filtered = (case status of
                       None \<Rightarrow> filtered
                     | Some st \<Rightarrow>
                         if st \<noteq> [] then filter (\<lambda>r. r_status r = Some st) filtered
                         else filtered);
         filtered = (case tag of
                       None \<Rightarrow> filtered
                     | Some tg \<Rightarrow>
                         if tg \<noteq> []
                         then filter (\<lambda>r. lower tg \<in> set (map lower (get_tags r))) filtered
                         else filtered)
     in filtered)"

subsection \<open>Sequences of calls\<close>

text \<open>
  The two mutating calls of the interface, and the tracker that a sequence of them leaves
  behind. A caller that catches an exception of \<^verbatim>\<open>update_status\<close> goes on with the tracker
  as the call left it.
\<close>

datatype call =
  Add string string string "string list option" string "string list option" string
| UpdateStatus int string

fun step :: "call \<Rightarrow> tracker \<Rightarrow> tracker" where
  "step (Add title resource_type url tags notes concepts now) t =
     snd (add_resource title resource_type url tags notes concepts now t)"
| "step (UpdateStatus resource_id status) t = snd (update_status resource_id status t)"

definition run :: "call list \<Rightarrow> tracker \<Rightarrow> tracker" where
  "run cs t = fold step cs t"

fun is_add :: "call \<Rightarrow> bool" where
  "is_add (Add title resource_type url tags notes concepts now) = True"
| "is_add (UpdateStatus resource_id status) = False"

section \<open>Search\<close>

text \<open>
  One iteration of the loop of \<^verbatim>\<open>search\<close>: the condition of the \<^verbatim>\<open>if\<close>, evaluated left to
  right with the short circuit of \<^verbatim>\<open>or\<close>. The title is read first; the notes are read only
  when the title does not match.
\<close>

definition resource_matches :: "string \<Rightarrow> resource \<Rightarrow> error + bool" where
  "resource_matches query_lower r =
    (case r_title r of
       None \<Rightarrow> Inl (KeyError ''title'')
     | Some title \<Rightarrow>
         if str_in query_lower (lower title) then Inr True
         else (case r_notes r of
                 None \<Rightarrow> Inl (KeyError ''notes'')
               | Some notes \<Rightarrow>
                   Inr (str_in query_lower (lower notes)
                        \<or> list_ex (\<lambda>tag. str_in query_lower (lower tag)) (get_tags r)
                        \<or> list_ex (\<lambda>concept. str_in query_lower (lower concept))
                             (get_concepts r))))"

fun search_loop :: "string \<Rightarrow> resource list \<Rightarrow> resource list \<Rightarrow> error + resource list" where
  "search_loop query_lower [] results = Inr results"
| "search_loop query_lower (r # rest) results =
    (case resource_matches query_lower r of
       Inl e \<Rightarrow> Inl e
     | Inr True \<Rightarrow> search_loop query_lower rest (results @ [r])
     | Inr False \<Rightarrow> search_loop query_lower rest results)"

definition search :: "string \<Rightarrow> tracker \<Rightarrow> error + resource list" where
  "search query t = search_loop (lower query) (resources t) []"

text \<open>
  The matching condition in the words of the specification: the lowercased query is a
  substring of the lowercased title, or of the lowercased notes, or of some lowercased tag,
  or of some lowercased concept.
\<close>

definition spec_matches :: "string \<Rightarrow> resource \<Rightarrow> bool" where
  "spec_matches query r \<longleftrightarrow>
     (case r_title r of None \<Rightarrow> False | Some title \<Rightarrow> sublist (lower query) (lower title))
   \<or> (case r_notes r of None \<Rightarrow> False | Some notes \<Rightarrow> sublist (lower query) (lower notes))
   \<or> (\<exists>tag \<in> set (get_tags r). sublist (lower query) (lower tag))
   \<or> (\<exists>concept \<in> set (get_concepts r). sublist (lower query) (lower concept))"

section \<open>The concept graph\<close>

text \<open>
  The graph is a \<^verbatim>\<open>defaultdict(set)\<close>: reading a missing key creates it with the empty set.
  \<open>graph_add c d g\<close> is \<^verbatim>\<open>graph[c].add(d)\<close>.
\<close>

type_synonym graph = "string \<rightharpoonup> string set"

definition graph_add :: "string \<Rightarrow> string \<Rightarrow> graph \<Rightarrow> graph" where
  "graph_add c d g = g(c \<mapsto> insert d (case g c of None \<Rightarrow> {} | Some s \<Rightarrow> s))"

text \<open>The body of the inner loop: the two \<^verbatim>\<open>add\<close> calls.\<close>

definition connect :: "string \<Rightarrow> string \<Rightarrow> graph \<Rightarrow> graph" where
  "connect concept1 concept2 g = graph_add concept2 concept1 (graph_add concept1 concept2 g)"

text \<open>
  The two nested loops over one resource's concepts:
  \<^verbatim>\<open>for i, concept1 in enumerate(concepts): for concept2 in concepts[i+1:]: ...\<close>
\<close>

definition connect_all :: "string list \<Rightarrow> graph \<Rightarrow> graph" where
  "connect_all concepts g =
     fold (\<lambda>(i, concept1) g. fold (\<lambda>concept2 g. connect concept1 concept2 g)
                                  (drop (i + 1) concepts) g)
          (enumerate 0 concepts) g"

definition build_knowledge_graph :: "tracker \<Rightarrow> graph" where
  "build_knowledge_graph t =
     fold (\<lambda>resource g. connect_all (get_concepts resource) g) (resources t) Map.empty"

text \<open>
  \<^verbatim>\<open>get_related_concepts\<close> returns \<^verbatim>\<open>list(graph.get(concept, []))\<close>. The order in which a
  Python set is listed is not fixed by the language, so the result is modelled by the set
  of its elements; the list is empty exactly when that set is.
\<close>

definition get_related_concepts :: "string \<Rightarrow> tracker \<Rightarrow> string set" where
  "get_related_concepts concept t =
     (case build_knowledge_graph t concept of None \<Rightarrow> {} | Some s \<Rightarrow> s)"

section \<open>Statistics\<close>

record statistics =
  total_resources :: nat
  by_status :: "string \<rightharpoonup> nat"
  by_type :: "string \<rightharpoonup> nat"
  unique_concepts :: nat
  unique_tags :: nat

text \<open>\<^verbatim>\<open>d[k] += 1\<close> on a \<^verbatim>\<open>defaultdict(int)\<close>.\<close>

definition increment :: "string \<Rightarrow> (string \<rightharpoonup> nat) \<Rightarrow> (string \<rightharpoonup> nat)" where
  "increment k d = d(k \<mapsto> (case d k of None \<Rightarrow> 0 | Some n \<Rightarrow> n) + 1)"

text \<open>
  The loop of \<^verbatim>\<open>get_statistics\<close> threads the four accumulators \<open>by_status\<close>, \<open>by_type\<close> (here \<open>status_counts\<close>, \<open>type_counts\<close>),
  \<open>all_concepts\<close> and \<open>all_tags\<close> through the resources.
\<close>

text \<open>\<^verbatim>\<open>resource.get("status", "unknown")\<close> and \<^verbatim>\<open>resource.get("type", "unknown")\<close>.\<close>

definition get_status :: "resource \<Rightarrow> string" where
  "get_status r = (case r_status r of None \<Rightarrow> ''unknown'' | Some s \<Rightarrow> s)"

definition get_type :: "resource \<Rightarrow> string" where
  "get_type r = (case r_type r of None \<Rightarrow> ''unknown'' | Some ty \<Rightarrow> ty)"

definition stats_step ::
  "resource \<Rightarrow> (string \<rightharpoonup> nat) \<times> (string \<rightharpoonup> nat) \<times> string set \<times> string set
    \<Rightarrow> (string \<rightharpoonup> nat) \<times> (string \<rightharpoonup> nat) \<times> string set \<times> string set" where
  "stats_step r acc =
    (case acc of (status_counts, type_counts, all_concepts, all_tags) \<Rightarrow>
      (increment (get_status r) status_counts,
       increment (get_type r) type_counts,
       all_concepts \<union> set (get_concepts r),
       all_tags \<union> set (get_tags r)))"

definition get_statistics :: "tracker \<Rightarrow> statistics" where
  "get_statistics t =
    (let total = length (resources t)
     in case fold stats_step (resources t) (Map.empty, Map.empty, {}, {}) of
          (status_counts, type_counts, all_concepts, all_tags) \<Rightarrow>
            \<lparr>total_resources = total,
             by_status = status_counts,
             by_type = type_counts,
             unique_concepts = card all_concepts,
             unique_tags = card all_tags\<rparr>)"

section \<open>Predicates and example stores used in the statements\<close>

definition ids_sequential :: "tracker \<Rightarrow> bool" where
  "ids_sequential t \<longleftrightarrow>
     map r_id (resources t) = map (\<lambda>k. Some (int k)) [1..<Suc (length (resources t))]"

text \<open>The three values that the comment in \<^verbatim>\<open>add_resource\<close> lists for the status.\<close>

definition valid_status :: "string \<Rightarrow> bool" where
  "valid_status s \<longleftrightarrow> s = ''in_progress'' \<or> s = ''completed'' \<or> s = ''archived''"

fun call_status_ok :: "call \<Rightarrow> bool" where
  "call_status_ok (Add title resource_type url tags notes concepts now) = True"
| "call_status_ok (UpdateStatus resource_id status) = valid_status status"

text \<open>
  The list after a successful \<^verbatim>\<open>update_status\<close>: the first resource with the id has the
  new status, every other resource is as before.
\<close>

fun set_first_status :: "int \<Rightarrow> string \<Rightarrow> resource list \<Rightarrow> resource list" where
  "set_first_status i s [] = []"
| "set_first_status i s (r # rs) =
     (if r_id r = Some i then r\<lparr>r_status := Some s\<rparr> # rs else r # set_first_status i s rs)"

text \<open>A store with one resource, as \<^verbatim>\<open>add_resource\<close> leaves it on a fresh tracker.\<close>

definition one_resource :: tracker where
  "one_resource =
     snd (add_resource ''A'' ''article'' [] None [] None ''2024-01-01 00:00:00'' (init None))"

text \<open>
  A store with two resources, in the manner of the demo script.
\<close>

definition two_resources :: tracker where
  "two_resources =
     run [Add ''Python Decorators Explained'' ''article'' ''https://example.com/decorators''
            (Some [''python'', ''advanced'']) ''Great explanation''
            (Some [''decorators'', ''closures'']) ''2024-01-01 00:00:00'',
          Add ''Async Programming'' ''video'' [] (Some [''async'']) ''Event loops''
            (Some [''coroutines'']) ''2024-01-02 00:00:00'']
       (init None)"

text \<open>
  Stores as an externally written file can hold them: one resource without the key
  \<^verbatim>\<open>notes\<close>, and one without the key \<^verbatim>\<open>title\<close>.
\<close>

definition no_notes_store :: tracker where
  "no_notes_store =
     init (Some [\<lparr>r_id = Some 1, r_title = Some ''A'', r_type = Some ''article'',
                  r_url = Some [], r_tags = Some [], r_concepts = Some [], r_notes = None,
                  r_date_added = Some ''2024-01-01 00:00:00'',
                  r_status = Some ''in_progress''\<rparr>])"

definition no_title_store :: tracker where
  "no_title_store =
     init (Some [\<lparr>r_id = Some 1, r_title = None, r_type = Some ''article'',
                  r_url = Some [], r_tags = Some [], r_concepts = Some [], r_notes = Some [],
                  r_date_added = Some ''2024-01-01 00:00:00'',
                  r_status = Some ''in_progress''\<rparr>])"

definition python_article :: resource where
  "python_article =
     \<lparr>r_id = Some 1, r_title = Some ''Python Decorators Explained'', r_type = Some ''article'',
      r_url = Some ''https://example.com/decorators'', r_tags = Some [''python'', ''advanced''],
      r_concepts = Some [''decorators'', ''closures''], r_notes = Some ''Great explanation'',
      r_date_added = Some ''2024-01-01 00:00:00'', r_status = Some ''in_progress''\<rparr>"

definition async_video :: resource where
  "async_video =
     \<lparr>r_id = Some 2, r_title = Some ''Async Programming'', r_type = Some ''video'',
      r_url = Some [], r_tags = Some [''async''],
      r_concepts = Some [''coroutines''], r_notes = Some ''Event loops'',
      r_date_added = Some ''2024-01-02 00:00:00'', r_status = Some ''in_progress''\<rparr>"


text \<open>Three resources, the second and third of them completed.\<close>

definition three_resources :: tracker where
  "three_resources =
     run [Add ''A'' ''article'' [] (Some [''t1'']) [] (Some [''x'', ''y'']) ''2024-01-01 00:00:00'',
          Add ''B'' ''video'' [] (Some [''t1'', ''t2'']) [] (Some [''y'', ''z'']) ''2024-01-02 00:00:00'',
          Add ''C'' ''video'' [] None [] None ''2024-01-03 00:00:00'',
          UpdateStatus 2 ''completed'',
          UpdateStatus 3 ''completed'']
       (init None)"


text \<open>
  For the proofs about the graph: the adjacency set of a concept, empty for a concept that
  is no key, and the pairs that the two nested loops connect in one list of concepts (each
  element with every later one, in both directions).
\<close>

definition adj :: "graph \<Rightarrow> string \<Rightarrow> string set" where
  "adj g a = (case g a of None \<Rightarrow> {} | Some s \<Rightarrow> s)"

fun co_occur :: "string list \<Rightarrow> (string \<times> string) set" where
  "co_occur [] = {}"
| "co_occur (c # cs) = ({c} \<times> set cs) \<union> (set cs \<times> {c}) \<union> co_occur cs"

text \<open>A store with one resource whose list of concepts names the same concept twice.\<close>

definition duplicate_concept_store :: tracker where
  "duplicate_concept_store =
     snd (add_resource ''A'' ''article'' [] None [] (Some [''a'', ''a''])
            ''2024-01-01 00:00:00'' (init None))"

section \<open>Properties of the store\<close>

lemma update_status_loop_ids:
  "map r_id (resources (snd (update_status_loop i s seen rs t))) = map r_id (resources t)
   \<or> resources (snd (update_status_loop i s seen rs t)) = resources t"
  if "resources t = seen @ rs"
  using that
proof (induction rs arbitrary: seen)
  case Nil
  then show ?case by simp
next
  case (Cons r rs)
  then show ?case
    by (auto simp: save_data_def Let_def split: option.splits)
qed

lemma update_status_ids:
  "map r_id (resources (snd (update_status i s t))) = map r_id (resources t)"
  using update_status_loop_ids [of t "[]" "resources t" i s]
  by (auto simp: update_status_def)

lemma add_resource_ids:
  "map r_id (resources (snd (add_resource ti ty u tg n c now t))) =
     map r_id (resources t) @ [Some (int (length (resources t)) + 1)]"
  by (simp add: add_resource_def save_data_def Let_def)

lemma update_status_length:
  "length (resources (snd (update_status i s t))) = length (resources t)"
  using arg_cong [OF update_status_ids [of i s t], of length] by simp

lemma step_ids_sequential: "ids_sequential t \<Longrightarrow> ids_sequential (step c t)"
proof (cases c)
  case (Add ti ty u tg n co now)
  assume "ids_sequential t"
  then show ?thesis
    by (simp add: ids_sequential_def Add add_resource_def save_data_def Let_def)
next
  case (UpdateStatus i s)
  assume "ids_sequential t"
  then show ?thesis
    by (simp add: ids_sequential_def UpdateStatus update_status_ids update_status_length)
qed

lemma run_ids_sequential: "ids_sequential t \<Longrightarrow> ids_sequential (run cs t)"
  unfolding run_def by (induction cs arbitrary: t) (simp_all add: step_ids_sequential)

lemma init_None_ids_sequential: "ids_sequential (init None)"
  by (simp add: ids_sequential_def init_def load_data_def)

lemma step_length:
  "length (resources (step c t)) = length (resources t) + (if is_add c then 1 else 0)"
  by (cases c) (simp_all add: add_resource_def save_data_def Let_def update_status_length)

lemma run_length:
  "length (resources (run cs t)) = length (resources t) + length (filter is_add cs)"
  unfolding run_def by (induction cs arbitrary: t) (simp_all add: step_length)

lemma sequential_nth:
  assumes "map r_id rs = map (\<lambda>k. Some (int k)) [m..<m + length rs]" and "k < length rs"
  shows "r_id (rs ! k) = Some (int (m + k))"
proof -
  have "r_id (rs ! k) = map r_id rs ! k"
    using assms(2) by simp
  also have "\<dots> = map (\<lambda>k. Some (int k)) [m..<m + length rs] ! k"
    by (simp only: assms(1))
  also have "\<dots> = Some (int (m + k))"
    using assms(2) by simp
  finally show ?thesis .
qed

lemma sequential_increasing:
  assumes "map r_id rs = map (\<lambda>k. Some (int k)) [m..<m + length rs]"
  shows "sorted_wrt (\<lambda>a b. \<exists>i j. r_id a = Some i \<and> r_id b = Some j \<and> i < j) rs"
  unfolding sorted_wrt_iff_nth_less
proof (intro allI impI)
  fix i j assume "i < j" "j < length rs"
  then show "\<exists>x y. r_id (rs ! i) = Some x \<and> r_id (rs ! j) = Some y \<and> x < y"
    using sequential_nth [OF assms, of i] sequential_nth [OF assms, of j] by simp
qed

text \<open>
  Claim C4. The id that \<^verbatim>\<open>add_resource\<close> gives a new resource is the number of resources
  held at that moment plus one. Hence, after any sequence of calls on a tracker that
  started without a file, the store holds as many resources as there were \<open>Add\<close> calls,
  the resource at position \<open>k\<close> (counted from 1) has id \<open>k\<close>, and the ids increase strictly
  along the list. Calls of \<^verbatim>\<open>update_status\<close> in between change neither.
\<close>

theorem add_resource_ids_by_position:
  "r_id (fst (add_resource title resource_type url tags notes concepts now t))
     = Some (int (length (resources t)) + 1)
   \<and> length (resources (run cs (init None))) = length (filter is_add cs)
   \<and> map r_id (resources (run cs (init None)))
       = map (\<lambda>k. Some (int k)) [1..<Suc (length (filter is_add cs))]
   \<and> sorted_wrt (\<lambda>a b. \<exists>i j. r_id a = Some i \<and> r_id b = Some j \<and> i < j)
       (resources (run cs (init None)))"
proof -
  let ?t = "run cs (init None)"
  have len: "length (resources ?t) = length (filter is_add cs)"
    by (simp add: run_length init_def load_data_def)
  have "ids_sequential ?t"
    by (rule run_ids_sequential [OF init_None_ids_sequential])
  then have ids: "map r_id (resources ?t) = map (\<lambda>k. Some (int k)) [1..<Suc (length (resources ?t))]"
    by (simp add: ids_sequential_def)
  have "sorted_wrt (\<lambda>a b. \<exists>i j. r_id a = Some i \<and> r_id b = Some j \<and> i < j) (resources ?t)"
    by (rule sequential_increasing [of _ 1]) (use ids in simp)
  with len ids show ?thesis
    by (simp add: add_resource_def Let_def)
qed

subsection \<open>The fields of the resources of a reachable store\<close>

text \<open>
  \<^verbatim>\<open>update_status\<close> changes nothing but the status of a resource, and \<^verbatim>\<open>add_resource\<close>
  stores every key. So each resource of a store that is built from the empty one by calls
  of the two carries the keys that the code reads with \<^verbatim>\<open>resource["k"]\<close>.
\<close>

lemma update_status_loop_preserves:
  assumes "resources t = seen @ rs"
      and "\<forall>r\<in>set (resources t). P r"
      and "\<And>r. P r \<Longrightarrow> P (r\<lparr>r_status := Some s\<rparr>)"
  shows "\<forall>r\<in>set (resources (snd (update_status_loop i s seen rs t))). P r"
  using assms(1,2)
proof (induction rs arbitrary: seen)
  case Nil
  then show ?case by simp
next
  case (Cons r rs)
  then show ?case
    by (auto simp: save_data_def Let_def assms(3) split: option.splits)
qed

lemma update_status_preserves:
  assumes "\<forall>r\<in>set (resources t). P r"
      and "\<And>r. P r \<Longrightarrow> P (r\<lparr>r_status := Some s\<rparr>)"
  shows "\<forall>r\<in>set (resources (snd (update_status i s t))). P r"
  unfolding update_status_def
  by (rule update_status_loop_preserves [where P = P]) (use assms in simp_all)

lemma step_fields_present:
  assumes "\<forall>r\<in>set (resources t). r_id r \<noteq> None \<and> r_title r \<noteq> None \<and> r_notes r \<noteq> None"
  shows "\<forall>r\<in>set (resources (step c t)). r_id r \<noteq> None \<and> r_title r \<noteq> None \<and> r_notes r \<noteq> None"
proof (cases c)
  case (Add ti ty u tg n co now)
  with assms show ?thesis
    by (auto simp: add_resource_def save_data_def Let_def)
next
  case (UpdateStatus i s)
  have "\<forall>r\<in>set (resources (snd (update_status i s t))). r_id r \<noteq> None \<and> r_title r \<noteq> None \<and> r_notes r \<noteq> None"
    by (rule update_status_preserves [where P = "\<lambda>r. r_id r \<noteq> None \<and> r_title r \<noteq> None \<and> r_notes r \<noteq> None"])
       (use assms in simp_all)
  then show ?thesis
    by (simp add: UpdateStatus)
qed

lemma fold_step_fields_present:
  assumes "\<forall>r\<in>set (resources t). r_id r \<noteq> None \<and> r_title r \<noteq> None \<and> r_notes r \<noteq> None"
  shows "\<forall>r\<in>set (resources (fold step cs t)). r_id r \<noteq> None \<and> r_title r \<noteq> None \<and> r_notes r \<noteq> None"
  using assms
proof (induction cs arbitrary: t)
  case Nil
  then show ?case by simp
next
  case (Cons c cs)
  have "\<forall>r\<in>set (resources (fold step cs (step c t))). r_id r \<noteq> None \<and> r_title r \<noteq> None \<and> r_notes r \<noteq> None"
    by (rule Cons.IH) (rule step_fields_present [OF Cons.prems])
  then show ?case by simp
qed

lemma run_fields_present:
  "\<forall>r\<in>set (resources (run cs (init None))). r_id r \<noteq> None \<and> r_title r \<noteq> None \<and> r_notes r \<noteq> None"
  unfolding run_def
  by (rule fold_step_fields_present) (simp add: init_def load_data_def)

lemma run_search_fields:
  "\<forall>r\<in>set (resources (run cs (init None))). r_title r \<noteq> None \<and> r_notes r \<noteq> None"
  using run_fields_present [of cs] by blast

subsection \<open>Status updates\<close>

lemma update_status_loop_not_found:
  "\<forall>r\<in>set rs. \<exists>i. r_id r = Some i \<and> i \<noteq> resource_id \<Longrightarrow>
   update_status_loop resource_id status seen rs t = (Inr False, t)"
  by (induction rs arbitrary: seen) auto

lemma one_resource_eq:
  "one_resource =
    \<lparr>resources = [\<lparr>r_id = Some 1, r_title = Some ''A'', r_type = Some ''article'',
                    r_url = Some [], r_tags = Some [], r_concepts = Some [], r_notes = Some [],
                    r_date_added = Some ''2024-01-01 00:00:00'',
                    r_status = Some ''in_progress''\<rparr>],
     db_file = Some [\<lparr>r_id = Some 1, r_title = Some ''A'', r_type = Some ''article'',
                      r_url = Some [], r_tags = Some [], r_concepts = Some [], r_notes = Some [],
                      r_date_added = Some ''2024-01-01 00:00:00'',
                      r_status = Some ''in_progress''\<rparr>]\<rparr>"
  by (simp add: one_resource_def add_resource_def init_def load_data_def save_data_def Let_def)

lemma update_status_not_found_ids:
  assumes "\<forall>r\<in>set (resources t). \<exists>i. r_id r = Some i \<and> i \<noteq> resource_id"
  shows "update_status resource_id status t = (Inr False, t)"
  using assms by (simp add: update_status_def update_status_loop_not_found)

text \<open>
  Claim C6. When no resource of the store has the id asked for, \<^verbatim>\<open>update_status\<close> returns
  \<^verbatim>\<open>False\<close>, raises nothing, and leaves the list in memory and the file as they were. This
  holds for every store whose resources all carry an id, and so for every store built from
  the empty one by calls of \<^verbatim>\<open>add_resource\<close> and \<^verbatim>\<open>update_status\<close>.
\<close>

theorem update_status_not_found:
  "((\<forall>r\<in>set (resources t). \<exists>i. r_id r = Some i \<and> i \<noteq> resource_id)
      \<longrightarrow> update_status resource_id status t = (Inr False, t))
   \<and> ((\<forall>r\<in>set (resources (run cs (init None))). r_id r \<noteq> Some resource_id)
      \<longrightarrow> update_status resource_id status (run cs (init None))
            = (Inr False, run cs (init None)))"
proof -
  have "update_status resource_id status (run cs (init None)) = (Inr False, run cs (init None))"
    if "\<forall>r\<in>set (resources (run cs (init None))). r_id r \<noteq> Some resource_id"
  proof (rule update_status_not_found_ids)
    show "\<forall>r\<in>set (resources (run cs (init None))). \<exists>i. r_id r = Some i \<and> i \<noteq> resource_id"
      using that run_fields_present [of cs] by fastforce
  qed
  then show ?thesis
    using update_status_not_found_ids [of t resource_id status] by blast
qed

theorem update_status_not_found_witness:
  "update_status 999 ''completed'' (init None) = (Inr False, init None)
   \<and> init None = \<lparr>resources = [], db_file = None\<rparr>
   \<and> update_status 999 ''completed'' one_resource = (Inr False, one_resource)"
proof -
  have h: "\<forall>r\<in>set (resources (init None)). \<exists>i. r_id r = Some i \<and> i \<noteq> 999"
    by (simp add: init_def load_data_def)
  have one: "one_resource
      = run [Add ''A'' ''article'' [] None [] None ''2024-01-01 00:00:00''] (init None)"
    by (simp add: one_resource_def run_def)
  have h': "\<forall>r\<in>set (resources one_resource). r_id r \<noteq> Some 999"
    by (simp add: one_resource_eq)
  from h h' update_status_not_found [of "init None" 999 "''completed''"
      "[Add ''A'' ''article'' [] None [] None ''2024-01-01 00:00:00'']"]
  have "update_status 999 ''completed'' (init None) = (Inr False, init None)
      \<and> update_status 999 ''completed'' one_resource = (Inr False, one_resource)"
    unfolding one [symmetric] by blast
  then show ?thesis
    by (simp add: init_def load_data_def)
qed

lemma update_status_loop_found:
  assumes "\<forall>r\<in>set rs. r_id r \<noteq> None \<and> r_title r \<noteq> None"
      and "\<exists>r\<in>set rs. r_id r = Some i"
  shows "update_status_loop i s seen rs t =
           (Inr True, save_data (t\<lparr>resources := seen @ set_first_status i s rs\<rparr>))"
  using assms
proof (induction rs arbitrary: seen)
  case Nil
  then show ?case by simp
next
  case (Cons r rs)
  show ?case
  proof (cases "r_id r = Some i")
    case True
    with Cons.prems show ?thesis by (auto simp: Let_def)
  next
    case False
    with Cons.prems have "\<exists>r\<in>set rs. r_id r = Some i" by auto
    moreover from Cons.prems have "\<forall>r\<in>set rs. r_id r \<noteq> None \<and> r_title r \<noteq> None" by simp
    ultimately have "update_status_loop i s (seen @ [r]) rs t =
        (Inr True, save_data (t\<lparr>resources := (seen @ [r]) @ set_first_status i s rs\<rparr>))"
      by (rule Cons.IH [rotated])
    with False Cons.prems show ?thesis by auto
  qed
qed

lemma set_first_status_idem:
  "set_first_status i s (set_first_status i s rs) = set_first_status i s rs"
  by (induction rs) auto

lemma set_first_status_fields:
  "r' \<in> set (set_first_status i s rs) \<Longrightarrow>
   \<exists>r\<in>set rs. r_id r' = r_id r \<and> r_title r' = r_title r"
  by (induction rs) (auto split: if_splits)

lemma set_first_status_has_id:
  "\<exists>r\<in>set rs. r_id r = Some i \<Longrightarrow> \<exists>r\<in>set (set_first_status i s rs). r_id r = Some i"
  by (induction rs) auto

lemma update_status_found:
  assumes "\<forall>r\<in>set (resources t). r_id r \<noteq> None \<and> r_title r \<noteq> None"
      and "\<exists>r\<in>set (resources t). r_id r = Some i"
  shows "update_status i s t =
     (Inr True, \<lparr>resources = set_first_status i s (resources t),
                 db_file = Some (set_first_status i s (resources t))\<rparr>)"
  using update_status_loop_found [OF assms, of s "[]" t]
  by (simp add: update_status_def save_data_def)

lemma update_status_twice:
  assumes "\<forall>r\<in>set (resources t). r_id r \<noteq> None \<and> r_title r \<noteq> None"
      and "\<exists>r\<in>set (resources t). r_id r = Some resource_id"
  shows "fst (update_status resource_id status t) = Inr True
       \<and> update_status resource_id status (snd (update_status resource_id status t))
           = (Inr True, snd (update_status resource_id status t))"
proof -
  let ?rs = "set_first_status resource_id status (resources t)"
  let ?t = "\<lparr>resources = ?rs, db_file = Some ?rs\<rparr>"
  have first: "update_status resource_id status t = (Inr True, ?t)"
    by (rule update_status_found [OF assms])
  have fields: "\<forall>r\<in>set (resources ?t). r_id r \<noteq> None \<and> r_title r \<noteq> None"
    using assms(1) set_first_status_fields [of _ resource_id status "resources t"]
    by fastforce
  have has: "\<exists>r\<in>set (resources ?t). r_id r = Some resource_id"
    using set_first_status_has_id [OF assms(2), of status] by simp
  have "update_status resource_id status ?t = (Inr True, ?t)"
    using update_status_found [OF fields has, of status]
    by (simp add: set_first_status_idem)
  with first show ?thesis by simp
qed

text \<open>
  Claim C9. On a store that holds a resource with the id asked for, \<^verbatim>\<open>update_status\<close>
  returns \<^verbatim>\<open>True\<close>, and a second call with the same arguments returns \<^verbatim>\<open>True\<close> again and
  leaves the tracker (list and file) as the first call left it. This holds for every store
  whose resources all carry an id and a title, and so for every store built from the empty
  one by calls of \<^verbatim>\<open>add_resource\<close> and \<^verbatim>\<open>update_status\<close>.
\<close>

theorem update_status_idempotent:
  "((\<forall>r\<in>set (resources t). r_id r \<noteq> None \<and> r_title r \<noteq> None)
      \<and> (\<exists>r\<in>set (resources t). r_id r = Some resource_id)
      \<longrightarrow> fst (update_status resource_id status t) = Inr True
          \<and> update_status resource_id status (snd (update_status resource_id status t))
              = (Inr True, snd (update_status resource_id status t)))
   \<and> ((\<exists>r\<in>set (resources (run cs (init None))). r_id r = Some resource_id)
      \<longrightarrow> fst (update_status resource_id status (run cs (init None))) = Inr True
          \<and> update_status resource_id status
               (snd (update_status resource_id status (run cs (init None))))
              = (Inr True, snd (update_status resource_id status (run cs (init None)))))"
proof -
  have "\<forall>r\<in>set (resources (run cs (init None))). r_id r \<noteq> None \<and> r_title r \<noteq> None"
    using run_fields_present [of cs] by blast
  from update_status_twice [OF this, of resource_id status]
    update_status_twice [of t resource_id status]
  show ?thesis by blast
qed

theorem update_status_idempotent_witness:
  "list_all (\<lambda>r. r_id r \<noteq> None \<and> r_title r \<noteq> None) (resources one_resource)
   \<and> (\<exists>r\<in>set (resources one_resource). r_id r = Some 1)
   \<and> fst (update_status 1 ''completed'' one_resource) = Inr True
   \<and> update_status 1 ''completed'' (snd (update_status 1 ''completed'' one_resource))
       = (Inr True, snd (update_status 1 ''completed'' one_resource))
   \<and> map r_status (resources (snd (update_status 1 ''completed'' one_resource)))
       = [Some ''completed'']"
proof -
  have h1: "\<forall>r\<in>set (resources one_resource). r_id r \<noteq> None \<and> r_title r \<noteq> None"
    by (simp add: one_resource_eq)
  have h2: "\<exists>r\<in>set (resources one_resource). r_id r = Some 1"
    by (simp add: one_resource_eq)
  have "map r_status (resources (snd (update_status 1 ''completed'' one_resource)))
       = [Some ''completed'']"
    by (simp add: one_resource_eq update_status_def save_data_def Let_def)
  with h1 h2 update_status_idempotent [of one_resource 1 "''completed''" "[]"] show ?thesis
    by (simp add: list_all_iff)
qed

subsection \<open>The status domain\<close>

lemma step_status_valid:
  assumes "call_status_ok c"
      and "\<forall>r\<in>set (resources t). \<exists>s. r_status r = Some s \<and> valid_status s"
  shows "\<forall>r\<in>set (resources (step c t)). \<exists>s. r_status r = Some s \<and> valid_status s"
proof (cases c)
  case (Add ti ty u tg n co now)
  with assms(2) show ?thesis
    by (auto simp: add_resource_def save_data_def Let_def valid_status_def)
next
  case (UpdateStatus i s)
  with assms(1) have "valid_status s" by simp
  then show ?thesis
    unfolding UpdateStatus step.simps
    by (intro update_status_preserves [where P = "\<lambda>r. \<exists>s. r_status r = Some s \<and> valid_status s"])
       (use assms(2) in simp_all)
qed

lemma run_status_valid:
  assumes "\<forall>c\<in>set cs. call_status_ok c"
      and "\<forall>r\<in>set (resources t). \<exists>s. r_status r = Some s \<and> valid_status s"
  shows "\<forall>r\<in>set (resources (run cs t)). \<exists>s. r_status r = Some s \<and> valid_status s"
  using assms unfolding run_def
proof (induction cs arbitrary: t)
  case Nil
  then show ?case by simp
next
  case (Cons c cs)
  from Cons.prems have "\<forall>r\<in>set (resources (step c t)). \<exists>s. r_status r = Some s \<and> valid_status s"
    by (intro step_status_valid) simp_all
  with Cons.prems(1) Cons.IH [of "step c t"] show ?case by simp
qed

text \<open>
  Claim C2, as the code has it. \<^verbatim>\<open>add_resource\<close> always stores the status
  \<^verbatim>\<open>in_progress\<close>. \<^verbatim>\<open>update_status\<close> stores the string it is given and checks nothing, so
  the three-value domain is kept by the callers: in every store reached from the empty
  one by calls of \<^verbatim>\<open>add_resource\<close> and by calls of \<^verbatim>\<open>update_status\<close> whose new status is
  one of the three values, every resource has a status, and it is one of the three.
\<close>

theorem status_domain_kept_by_valid_updates:
  assumes "\<forall>c\<in>set cs. call_status_ok c"
  shows "r_status (fst (add_resource title resource_type url tags notes concepts now t))
           = Some ''in_progress''
       \<and> (\<forall>r\<in>set (resources (run cs (init None))). \<exists>s. r_status r = Some s \<and> valid_status s)"
proof -
  have "\<forall>r\<in>set (resources (run cs (init None))). \<exists>s. r_status r = Some s \<and> valid_status s"
    by (rule run_status_valid [OF assms]) (simp add: init_def load_data_def)
  then show ?thesis
    by (simp add: add_resource_def Let_def)
qed

theorem status_domain_kept_by_valid_updates_witness:
  "list_all call_status_ok [Add ''A'' ''article'' [] None [] None ''2024-01-01 00:00:00'',
                             UpdateStatus 1 ''completed'']
   \<and> list_all (\<lambda>r. \<exists>s. r_status r = Some s \<and> valid_status s)
        (resources (run [Add ''A'' ''article'' [] None [] None ''2024-01-01 00:00:00'',
                         UpdateStatus 1 ''completed''] (init None)))
   \<and> map r_status (resources (run [Add ''A'' ''article'' [] None [] None ''2024-01-01 00:00:00'',
                                   UpdateStatus 1 ''completed''] (init None)))
       = [Some ''completed'']"
proof -
  let ?cs = "[Add ''A'' ''article'' [] None [] None ''2024-01-01 00:00:00'',
              UpdateStatus 1 ''completed'']"
  have h: "\<forall>c\<in>set ?cs. call_status_ok c"
    by (simp add: valid_status_def)
  have "map r_status (resources (run ?cs (init None))) = [Some ''completed'']"
    by (simp add: run_def add_resource_def init_def load_data_def save_data_def update_status_def Let_def)
  with h status_domain_kept_by_valid_updates [OF h] show ?thesis
    by (simp add: list_all_iff)
qed

text \<open>
  The claim as stated fails: \<^verbatim>\<open>update_status(1, "done")\<close> on a store with one resource
  returns \<^verbatim>\<open>True\<close> and leaves that resource, in memory and in the file, with the status
  \<^verbatim>\<open>done\<close>, which is none of the three values.
\<close>

theorem update_status_accepts_any_status:
  "fst (update_status 1 ''done'' one_resource) = Inr True
   \<and> map r_status (resources (snd (update_status 1 ''done'' one_resource))) = [Some ''done'']
   \<and> map_option (map r_status) (db_file (snd (update_status 1 ''done'' one_resource)))
       = Some [Some ''done'']
   \<and> \<not> valid_status ''done''"
  by (simp add: one_resource_eq update_status_def save_data_def valid_status_def Let_def)

section \<open>Properties of the search\<close>

lemma resource_matches_spec:
  assumes "r_title r \<noteq> None" and "r_notes r \<noteq> None"
  shows "resource_matches (lower q) r = Inr (spec_matches q r)"
  using assms
  by (auto simp: resource_matches_def spec_matches_def str_in_def list_ex_iff)

lemma search_loop_filter:
  assumes "\<forall>r\<in>set rs. r_title r \<noteq> None \<and> r_notes r \<noteq> None"
  shows "search_loop (lower q) rs results = Inr (results @ filter (spec_matches q) rs)"
  using assms
proof (induction rs arbitrary: results)
  case Nil
  then show ?case by simp
next
  case (Cons r rs)
  then have "resource_matches (lower q) r = Inr (spec_matches q r)"
    by (simp add: resource_matches_spec)
  with Cons show ?case by simp
qed






lemma two_resources_eq: "resources two_resources = [python_article, async_video]"
  by (simp add: two_resources_def run_def add_resource_def init_def load_data_def
      save_data_def Let_def python_article_def async_video_def)


section \<open>Records that lack a key\<close>

lemma search_missing_title:
  assumes "r \<in> set rs" and "r_title r = None"
  shows "\<exists>e. search_loop ql rs results = Inl e"
  using assms
proof (induction rs arbitrary: results)
  case Nil
  then show ?case by simp
next
  case (Cons a rs)
  show ?case
  proof (cases "resource_matches ql a")
    case (Inl e)
    then show ?thesis by simp
  next
    case (Inr b)
    with Cons.prems have "a \<noteq> r"
      by (auto simp: resource_matches_def)
    with Cons.prems have "r \<in> set rs" by simp
    from Cons.IH [OF this Cons.prems(2)] Inr show ?thesis
      by (cases b) simp_all
  qed
qed

lemma no_notes_store_eq:
  "resources no_notes_store =
     [\<lparr>r_id = Some 1, r_title = Some ''A'', r_type = Some ''article'',
       r_url = Some [], r_tags = Some [], r_concepts = Some [], r_notes = None,
       r_date_added = Some ''2024-01-01 00:00:00'', r_status = Some ''in_progress''\<rparr>]"
  by (simp add: no_notes_store_def init_def load_data_def)

lemma no_title_store_eq:
  "resources no_title_store =
     [\<lparr>r_id = Some 1, r_title = None, r_type = Some ''article'',
       r_url = Some [], r_tags = Some [], r_concepts = Some [], r_notes = Some [],
       r_date_added = Some ''2024-01-01 00:00:00'', r_status = Some ''in_progress''\<rparr>]"
  by (simp add: no_title_store_def init_def load_data_def)

lemma search_no_notes: "search ''x'' no_notes_store = Inl (KeyError ''notes'')"
  by code_simp

lemma search_no_title: "search q no_title_store = Inl (KeyError ''title'')"
  by (simp add: search_def no_title_store_eq resource_matches_def)

lemma list_no_notes:
  "list_resources None None no_notes_store = resources no_notes_store"
  "list_resources (Some ''in_progress'') None no_notes_store = resources no_notes_store"
  by (simp_all add: list_resources_def no_notes_store_eq)

lemma stats_no_notes:
  "total_resources (get_statistics no_notes_store) = 1"
  "by_status (get_statistics no_notes_store) ''in_progress'' = Some 1"
  by (simp_all add: get_statistics_def no_notes_store_eq stats_step_def increment_def
      get_status_def get_type_def)

lemma list_no_title:
  "list_resources None None no_title_store = resources no_title_store"
  by (simp_all add: list_resources_def no_title_store_eq)

lemma stats_no_title:
  "total_resources (get_statistics no_title_store) = 1"
  by (simp_all add: get_statistics_def no_title_store_eq stats_step_def increment_def
      get_status_def get_type_def)

text \<open>
  Claim C10. \<^verbatim>\<open>search\<close> reads \<^verbatim>\<open>resource["title"]\<close> and \<^verbatim>\<open>resource["notes"]\<close>. On a store
  that holds a record without notes it raises \<^verbatim>\<open>KeyError\<close> (for a query that the title does
  not match), and on any store that holds a record without a title it raises for every
  query; \<^verbatim>\<open>list_resources\<close> and \<^verbatim>\<open>get_statistics\<close> return their results on the same stores.
  On a store built from the empty one by calls of \<^verbatim>\<open>add_resource\<close> and \<^verbatim>\<open>update_status\<close>
  the search never raises: it returns the matching resources.
\<close>

theorem search_needs_title_and_notes:
  "search ''x'' no_notes_store = Inl (KeyError ''notes'')
   \<and> search q no_title_store = Inl (KeyError ''title'')
   \<and> (r \<in> set (resources t) \<and> r_title r = None \<longrightarrow> (\<exists>e. search q t = Inl e))
   \<and> list_resources None None no_notes_store = resources no_notes_store
   \<and> list_resources (Some ''in_progress'') None no_notes_store = resources no_notes_store
   \<and> list_resources None None no_title_store = resources no_title_store
   \<and> total_resources (get_statistics no_notes_store) = 1
   \<and> by_status (get_statistics no_notes_store) ''in_progress'' = Some 1
   \<and> total_resources (get_statistics no_title_store) = 1
   \<and> search q (run cs (init None))
       = Inr (filter (spec_matches q) (resources (run cs (init None))))"
proof -
  have "search q (run cs (init None))
       = Inr (filter (spec_matches q) (resources (run cs (init None))))"
    using search_loop_filter [OF run_search_fields, of q cs "[]"]
    by (simp add: search_def)
  moreover have "\<exists>e. search q t = Inl e" if "r \<in> set (resources t)" "r_title r = None"
    unfolding search_def by (rule search_missing_title [OF that])
  ultimately show ?thesis
    using search_no_notes search_no_title [of q] list_no_notes list_no_title
      stats_no_notes stats_no_title
    by blast
qed

theorem search_needs_title_and_notes_witness:
  "(\<exists>r\<in>set (resources no_title_store). r_title r = None)
   \<and> (\<exists>e. search ''python'' no_title_store = Inl e)
   \<and> search ''python'' (run [Add ''Python'' ''article'' [] None [] None ''2024-01-01 00:00:00'']
                           (init None))
       = Inr (filter (spec_matches ''python'')
                (resources (run [Add ''Python'' ''article'' [] None [] None
                                   ''2024-01-01 00:00:00''] (init None))))"
proof -
  let ?r = "\<lparr>r_id = Some 1, r_title = None, r_type = Some ''article'',
       r_url = Some [], r_tags = Some [], r_concepts = Some [], r_notes = Some [],
       r_date_added = Some ''2024-01-01 00:00:00'', r_status = Some ''in_progress''\<rparr>"
  have h: "?r \<in> set (resources no_title_store) \<and> r_title ?r = None"
    by (simp add: no_title_store_eq)
  then have "\<exists>r\<in>set (resources no_title_store). r_title r = None"
    by blast
  with h search_needs_title_and_notes [of "''python''" ?r no_title_store
      "[Add ''Python'' ''article'' [] None [] None ''2024-01-01 00:00:00'']"]
  show ?thesis
    by blast
qed

section \<open>Properties of the statistics\<close>











section \<open>Properties of the concept graph\<close>

lemma connect_all_shift:
  "fold (\<lambda>(i, concept1) g. fold (\<lambda>concept2 g. connect concept1 concept2 g)
                               (drop (i + 1) (c # cs)) g) (enumerate (Suc n) xs) g
   = fold (\<lambda>(i, concept1) g. fold (\<lambda>concept2 g. connect concept1 concept2 g)
                                 (drop (i + 1) cs) g) (enumerate n xs) g"
  by (induction xs arbitrary: n g) simp_all

lemma connect_all_Nil: "connect_all [] g = g"
  by (simp add: connect_all_def)

lemma connect_all_Cons:
  "connect_all (c # cs) g = connect_all cs (fold (connect c) cs g)"
proof -
  have "connect_all (c # cs) g =
      fold (\<lambda>(i, concept1) g. fold (\<lambda>concept2 g. connect concept1 concept2 g)
                                  (drop (i + 1) (c # cs)) g)
        (enumerate (Suc 0) cs) (fold (\<lambda>concept2 g. connect c concept2 g) cs g)"
    by (simp add: connect_all_def)
  also have "\<dots> = connect_all cs (fold (\<lambda>concept2 g. connect c concept2 g) cs g)"
    unfolding connect_all_def by (rule connect_all_shift)
  finally show ?thesis .
qed

lemma adj_graph_add:
  "adj (graph_add c d g) a = (if a = c then insert d (adj g c) else adj g a)"
  by (simp add: adj_def graph_add_def)

lemma adj_connect:
  "adj (connect c1 c2 g) a =
     adj g a \<union> (if a = c1 then {c2} else {}) \<union> (if a = c2 then {c1} else {})"
  by (auto simp: connect_def adj_graph_add)

lemma adj_fold_connect:
  "adj (fold (connect c) cs g) a =
     adj g a \<union> (if a = c then set cs else {}) \<union> (if a \<in> set cs then {c} else {})"
proof (induction cs arbitrary: g)
  case Nil
  then show ?case by simp
next
  case (Cons d cs)
  have "adj (fold (connect c) (d # cs) g) a = adj (fold (connect c) cs (connect c d g)) a"
    by simp
  also have "\<dots> = adj (connect c d g) a \<union> (if a = c then set cs else {})
      \<union> (if a \<in> set cs then {c} else {})"
    by (rule Cons.IH)
  also have "\<dots> = adj g a \<union> (if a = c then set (d # cs) else {})
      \<union> (if a \<in> set (d # cs) then {c} else {})"
    by (auto simp: adj_connect)
  finally show ?case .
qed

lemma adj_connect_all:
  "adj (connect_all cs g) a = adj g a \<union> {b. (a, b) \<in> co_occur cs}"
proof (induction cs arbitrary: g)
  case Nil
  then show ?case by (simp add: connect_all_Nil)
next
  case (Cons c cs)
  have "adj (connect_all (c # cs) g) a
      = adj (fold (connect c) cs g) a \<union> {b. (a, b) \<in> co_occur cs}"
    by (simp only: connect_all_Cons Cons.IH)
  also have "\<dots> = adj g a \<union> {b. (a, b) \<in> co_occur (c # cs)}"
    by (auto simp: adj_fold_connect)
  finally show ?case .
qed

lemma adj_fold_connect_all:
  "adj (fold (\<lambda>resource g. connect_all (get_concepts resource) g) rs g) a =
     adj g a \<union> (\<Union>r\<in>set rs. {b. (a, b) \<in> co_occur (get_concepts r)})"
proof (induction rs arbitrary: g)
  case Nil
  then show ?case by simp
next
  case (Cons r rs)
  have "adj (fold (\<lambda>resource g. connect_all (get_concepts resource) g) (r # rs) g) a
      = adj (connect_all (get_concepts r) g) a
        \<union> (\<Union>r\<in>set rs. {b. (a, b) \<in> co_occur (get_concepts r)})"
    by (simp only: fold_simps Cons.IH)
  also have "\<dots> = adj g a \<union> (\<Union>r\<in>set (r # rs). {b. (a, b) \<in> co_occur (get_concepts r)})"
    by (auto simp: adj_connect_all)
  finally show ?case .
qed

lemma related_co_occur:
  "b \<in> get_related_concepts a t \<longleftrightarrow>
     (\<exists>r\<in>set (resources t). (a, b) \<in> co_occur (get_concepts r))"
proof -
  have "get_related_concepts a t = adj (build_knowledge_graph t) a"
    by (simp add: get_related_concepts_def adj_def)
  also have "\<dots> = (\<Union>r\<in>set (resources t). {b. (a, b) \<in> co_occur (get_concepts r)})"
    unfolding build_knowledge_graph_def adj_fold_connect_all by (simp add: adj_def)
  finally show ?thesis by simp
qed

lemma co_occur_sym: "(a, b) \<in> co_occur cs \<Longrightarrow> (b, a) \<in> co_occur cs"
  by (induction cs) auto

lemma co_occur_self: "(c, c) \<in> co_occur cs \<longleftrightarrow> 2 \<le> count_list cs c"
proof (induction cs)
  case Nil
  then show ?case by simp
next
  case (Cons d cs)
  have "c \<in> set cs \<longleftrightarrow> 1 \<le> count_list cs c"
    using count_list_0_iff [of cs c] by auto
  with Cons show ?case by auto
qed

lemma co_occur_members:
  "(a, b) \<in> co_occur cs \<Longrightarrow> a \<in> set cs \<and> 2 \<le> length cs"
proof (induction cs)
  case Nil
  then show ?case by simp
next
  case (Cons d cs)
  then show ?case
    by (cases cs) auto
qed

text \<open>Every key of the graph has a non-empty adjacency set.\<close>

lemma graph_add_nonempty:
  "\<forall>k s. g k = Some s \<longrightarrow> s \<noteq> {} \<Longrightarrow> \<forall>k s. graph_add c d g k = Some s \<longrightarrow> s \<noteq> {}"
  by (auto simp: graph_add_def)

lemma fold_connect_nonempty:
  "\<forall>k s. g k = Some s \<longrightarrow> s \<noteq> {} \<Longrightarrow> \<forall>k s. fold (connect c) cs g k = Some s \<longrightarrow> s \<noteq> {}"
proof (induction cs arbitrary: g)
  case Nil
  then show ?case by simp
next
  case (Cons d cs)
  have "\<forall>k s. connect c d g k = Some s \<longrightarrow> s \<noteq> {}"
    unfolding connect_def by (intro graph_add_nonempty Cons.prems)
  from Cons.IH [OF this] show ?case by simp
qed

lemma connect_all_nonempty:
  "\<forall>k s. g k = Some s \<longrightarrow> s \<noteq> {} \<Longrightarrow> \<forall>k s. connect_all cs g k = Some s \<longrightarrow> s \<noteq> {}"
proof (induction cs arbitrary: g)
  case Nil
  then show ?case by (simp add: connect_all_Nil)
next
  case (Cons c cs)
  have "\<forall>k s. fold (connect c) cs g k = Some s \<longrightarrow> s \<noteq> {}"
    by (rule fold_connect_nonempty [OF Cons.prems])
  from Cons.IH [OF this] show ?case by (simp only: connect_all_Cons)
qed

lemma fold_connect_all_nonempty:
  "\<forall>k s. g k = Some s \<longrightarrow> s \<noteq> {} \<Longrightarrow>
   \<forall>k s. fold (\<lambda>resource g. connect_all (get_concepts resource) g) rs g k = Some s \<longrightarrow> s \<noteq> {}"
proof (induction rs arbitrary: g)
  case Nil
  then show ?case by simp
next
  case (Cons r rs)
  have "\<forall>k s. connect_all (get_concepts r) g k = Some s \<longrightarrow> s \<noteq> {}"
    by (rule connect_all_nonempty [OF Cons.prems])
  from Cons.IH [OF this] show ?case by simp
qed

lemma build_knowledge_graph_nonempty:
  "build_knowledge_graph t k = Some s \<Longrightarrow> s \<noteq> {}"
  using fold_connect_all_nonempty [of Map.empty "resources t"]
  by (simp add: build_knowledge_graph_def)

lemma key_iff_related:
  "k \<in> dom (build_knowledge_graph t) \<longleftrightarrow> get_related_concepts k t \<noteq> {}"
  using build_knowledge_graph_nonempty [of t k]
  by (auto simp: get_related_concepts_def split: option.splits)

text \<open>
  Claim C5. The graph is symmetric: when \<open>b\<close> is related to \<open>a\<close> then \<open>a\<close> is related to
  \<open>b\<close>; in terms of the mapping, when \<open>b\<close> is in the adjacency set of the key \<open>a\<close> then \<open>b\<close>
  is a key and \<open>a\<close> is in its adjacency set.
\<close>

theorem related_concepts_symmetric:
  "(b \<in> get_related_concepts a t \<longrightarrow> a \<in> get_related_concepts b t)
   \<and> (build_knowledge_graph t a = Some s \<and> b \<in> s
        \<longrightarrow> (\<exists>s'. build_knowledge_graph t b = Some s' \<and> a \<in> s'))"
proof -
  have sym: "a \<in> get_related_concepts b t" if "b \<in> get_related_concepts a t" for a b
    using that co_occur_sym unfolding related_co_occur by blast
  have "\<exists>s'. build_knowledge_graph t b = Some s' \<and> a \<in> s'"
    if "build_knowledge_graph t a = Some s" "b \<in> s"
  proof -
    from that have "b \<in> get_related_concepts a t"
      by (simp add: get_related_concepts_def)
    then have "a \<in> get_related_concepts b t"
      by (rule sym)
    then show ?thesis
      by (auto simp: get_related_concepts_def split: option.splits)
  qed
  with sym show ?thesis by blast
qed

theorem related_concepts_symmetric_witness:
  "''y'' \<in> get_related_concepts ''x'' three_resources
   \<and> ''x'' \<in> get_related_concepts ''y'' three_resources
   \<and> get_related_concepts ''y'' three_resources = {''x'', ''z''}"
proof -
  have 1: "''y'' \<in> get_related_concepts ''x'' three_resources"
    by code_simp
  have 2: "get_related_concepts ''y'' three_resources = {''x'', ''z''}"
    by code_simp
  from 1 2 related_concepts_symmetric [of "''y''" "''x''" three_resources "{}"]
  show ?thesis by blast
qed

lemma distinct_count_list: "distinct cs \<Longrightarrow> count_list cs c \<le> 1"
  by (induction cs) (auto simp: count_list_0_iff)

text \<open>
  Claim C1, as the code has it. The loops pair list positions, not values, so a concept is
  related to itself exactly when some resource lists it at two positions. When no
  resource lists a concept twice, no concept is related to itself and no key of the graph
  is in its own adjacency set.
\<close>

theorem self_loop_iff_listed_twice:
  "(c \<in> get_related_concepts c t
      \<longleftrightarrow> (\<exists>r\<in>set (resources t). 2 \<le> count_list (get_concepts r) c))
   \<and> ((\<forall>r\<in>set (resources t). distinct (get_concepts r))
        \<longrightarrow> c \<notin> get_related_concepts c t
            \<and> (\<forall>s. build_knowledge_graph t c = Some s \<longrightarrow> c \<notin> s))"
proof -
  have iff: "c \<in> get_related_concepts c t
      \<longleftrightarrow> (\<exists>r\<in>set (resources t). 2 \<le> count_list (get_concepts r) c)"
    by (simp add: related_co_occur co_occur_self)
  have no: "c \<notin> get_related_concepts c t"
    if "\<forall>r\<in>set (resources t). distinct (get_concepts r)"
  proof
    assume "c \<in> get_related_concepts c t"
    with iff obtain r where "r \<in> set (resources t)" "2 \<le> count_list (get_concepts r) c"
      by blast
    with that distinct_count_list [of "get_concepts r" c] show False
      by auto
  qed
  then have "\<forall>s. build_knowledge_graph t c = Some s \<longrightarrow> c \<notin> s"
    if "\<forall>r\<in>set (resources t). distinct (get_concepts r)"
    using that by (auto simp: get_related_concepts_def)
  with iff no show ?thesis by blast
qed

lemma three_resources_concepts:
  "map get_concepts (resources three_resources) = [[''x'', ''y''], [''y'', ''z''], []]"
  by (simp add: three_resources_def run_def add_resource_def init_def load_data_def
      save_data_def update_status_def Let_def get_concepts_def)

theorem self_loop_iff_listed_twice_witness:
  "list_all (\<lambda>r. distinct (get_concepts r)) (resources three_resources)
   \<and> ''y'' \<notin> get_related_concepts ''y'' three_resources
   \<and> build_knowledge_graph three_resources ''y'' \<noteq> None"
proof -
  have "list_all distinct (map get_concepts (resources three_resources))"
    by (simp only: three_resources_concepts) simp
  then have d: "list_all (\<lambda>r. distinct (get_concepts r)) (resources three_resources)"
    by (simp add: list_all_iff)
  then have h: "\<forall>r\<in>set (resources three_resources). distinct (get_concepts r)"
    by (simp add: list_all_iff)
  have k: "build_knowledge_graph three_resources ''y'' \<noteq> None"
    by code_simp
  from h self_loop_iff_listed_twice [of "''y''" three_resources] d k show ?thesis
    by blast
qed

text \<open>
  The claim as stated fails: a resource with the concepts \<^verbatim>\<open>["a", "a"]\<close> makes \<^verbatim>\<open>a\<close> a key
  of the graph whose adjacency set is \<^verbatim>\<open>{a}\<close>.
\<close>

theorem duplicate_concept_self_loop:
  "map get_concepts (resources duplicate_concept_store) = [[''a'', ''a'']]
   \<and> build_knowledge_graph duplicate_concept_store ''a'' = Some {''a''}
   \<and> ''a'' \<in> get_related_concepts ''a'' duplicate_concept_store"
  by code_simp

text \<open>
  Claim C8. The keys of the graph are the concepts with a non-empty adjacency set. A
  concept that occurs only in lists of concepts of length at most one (or in none) is no
  key, and its related concepts are empty.
\<close>

theorem concept_without_edge_absent:
  "(k \<in> dom (build_knowledge_graph t) \<longleftrightarrow> get_related_concepts k t \<noteq> {})
   \<and> ((\<forall>r\<in>set (resources t). c \<in> set (get_concepts r) \<longrightarrow> length (get_concepts r) \<le> 1)
        \<longrightarrow> build_knowledge_graph t c = None \<and> get_related_concepts c t = {})"
proof -
  have empty: "get_related_concepts c t = {}"
    if "\<forall>r\<in>set (resources t). c \<in> set (get_concepts r) \<longrightarrow> length (get_concepts r) \<le> 1"
  proof (rule ccontr)
    assume "get_related_concepts c t \<noteq> {}"
    then obtain b r where "r \<in> set (resources t)" "(c, b) \<in> co_occur (get_concepts r)"
      unfolding related_co_occur [symmetric] ex_in_conv [symmetric]
      by (auto simp: related_co_occur)
    with that co_occur_members [of c b "get_concepts r"] show False
      by auto
  qed
  moreover have "build_knowledge_graph t c = None" if "get_related_concepts c t = {}"
    using that key_iff_related [of c t] by auto
  ultimately show ?thesis
    using key_iff_related [of k t] by blast
qed

theorem concept_without_edge_absent_witness:
  "build_knowledge_graph two_resources ''coroutines'' = None
   \<and> get_related_concepts ''coroutines'' two_resources = {}
   \<and> ''coroutines'' \<in> set (get_concepts async_video)
   \<and> get_related_concepts ''closures'' two_resources = {''decorators''}"
proof -
  have h: "\<forall>r\<in>set (resources two_resources).
      ''coroutines'' \<in> set (get_concepts r) \<longrightarrow> length (get_concepts r) \<le> 1"
    by (simp add: two_resources_eq python_article_def async_video_def get_concepts_def)
  have 1: "''coroutines'' \<in> set (get_concepts async_video)"
    by (simp add: async_video_def get_concepts_def)
  have 2: "get_related_concepts ''closures'' two_resources = {''decorators''}"
    by code_simp
  from h concept_without_edge_absent [of "''closures''" two_resources "''coroutines''"] 1 2
  show ?thesis by blast
qed

end
